theory Spec2Isabelle
  imports Complex_Main "HOL-Library.Sublist"
begin

section \<open>chemidr: identifier lookups against PubChem and NCBI E-utilities\<close>

text \<open>
  A shallow embedding of \<^verbatim>\<open>chemidr/id_map.py\<close>. Every function of the module is a HOL
  function of the same name (the leading and trailing underscores of the private helpers
  are dropped). What the Python does beyond computing a value is explicit:
  \<^item> an exception is a value \<open>Inl e\<close> of the sum type \<open>py_error + 'a\<close>;
  \<^item> the network is a function from the URL and the number of requests made so far to
    the response the server gives; the number of requests and the time slept are the
    state \<open>world\<close> that every fetch takes and returns;
  \<^item> the interpreter's recursion limit is a number of nested calls of the fetcher that the
    caller's stack leaves room for; the call beyond it raises \<^verbatim>\<open>RecursionError\<close>.
\<close>

subsection \<open>Python values and exceptions\<close>

datatype py_error =
    ValueError | KeyError | TypeError | IndexError | AttributeError
  | UnboundLocalError | RecursionError | JSONDecodeError | XMLSyntaxError

text \<open>
  The values the module handles: what \<^verbatim>\<open>json.loads\<close> produces (\<^verbatim>\<open>None\<close>, booleans,
  integers, strings, lists, dictionaries in insertion order) and \<^verbatim>\<open>np.nan\<close>, the
  module's marker for an absent value. JSON numbers with a fraction are outside the model.
\<close>

datatype pyval =
    PNone | PNaN | PBool bool | PInt int | PStr string
  | PList "pyval list" | PDict "(pyval \<times> pyval) list"

definition bindE :: "'e + 'a \<Rightarrow> ('a \<Rightarrow> 'e + 'b) \<Rightarrow> 'e + 'b" where
  "bindE m f = (case m of Inl e \<Rightarrow> Inl e | Inr v \<Rightarrow> f v)"

text \<open>A comprehension evaluates its body element by element and stops at the first exception.\<close>

fun mapE :: "('a \<Rightarrow> 'e + 'b) \<Rightarrow> 'a list \<Rightarrow> 'e + 'b list" where
  "mapE f [] = Inr []"
| "mapE f (x # xs) = bindE (f x) (\<lambda>y. bindE (mapE f xs) (\<lambda>ys. Inr (y # ys)))"

fun foldE :: "('s \<Rightarrow> 'a \<Rightarrow> 'e + 's) \<Rightarrow> 's \<Rightarrow> 'a list \<Rightarrow> 'e + 's" where
  "foldE f s [] = Inr s"
| "foldE f s (x # xs) = bindE (f s x) (\<lambda>s'. foldE f s' xs)"

text \<open>
  Python's \<^verbatim>\<open>==\<close>, as far as the module needs it: one side is always a string or an
  integer. A boolean equals the integer it stands for; \<^verbatim>\<open>np.nan\<close> is one object, which a
  dictionary finds again by identity.
\<close>

fun py_eq :: "pyval \<Rightarrow> pyval \<Rightarrow> bool" where
  "py_eq (PBool b) (PInt i) = (i = (if b then 1 else 0))"
| "py_eq (PInt i) (PBool b) = (i = (if b then 1 else 0))"
| "py_eq a b = (a = b)"

fun hashable :: "pyval \<Rightarrow> bool" where
  "hashable (PList xs) = False"
| "hashable (PDict d) = False"
| "hashable v = True"

fun dict_lookup :: "(pyval \<times> pyval) list \<Rightarrow> pyval \<Rightarrow> pyval option" where
  "dict_lookup [] k = None"
| "dict_lookup ((k', v) # d) k = (if py_eq k' k then Some v else dict_lookup d k)"

text \<open>\<^verbatim>\<open>d[k] = v\<close>: an existing key keeps its place and its key object, a new one goes last.\<close>

fun dict_set :: "(pyval \<times> pyval) list \<Rightarrow> pyval \<Rightarrow> pyval \<Rightarrow> (pyval \<times> pyval) list" where
  "dict_set [] k v = [(k, v)]"
| "dict_set ((k', v') # d) k v =
     (if py_eq k' k then (k', v) # d else (k', v') # dict_set d k v)"

definition setitem ::
  "(pyval \<times> pyval) list \<Rightarrow> pyval \<Rightarrow> pyval \<Rightarrow> py_error + (pyval \<times> pyval) list" where
  "setitem d k v = (if hashable k then Inr (dict_set d k v) else Inl TypeError)"

text \<open>\<^verbatim>\<open>obj[key]\<close> for a string key, and \<^verbatim>\<open>obj[0]\<close>.\<close>

fun getitem :: "pyval \<Rightarrow> string \<Rightarrow> py_error + pyval" where
  "getitem (PDict d) key =
     (case dict_lookup d (PStr key) of None \<Rightarrow> Inl KeyError | Some v \<Rightarrow> Inr v)"
| "getitem obj key = Inl TypeError"

fun getitem0 :: "pyval \<Rightarrow> py_error + pyval" where
  "getitem0 (PList xs) = (case xs of [] \<Rightarrow> Inl IndexError | x # _ \<Rightarrow> Inr x)"
| "getitem0 (PStr s) = (case s of [] \<Rightarrow> Inl IndexError | c # _ \<Rightarrow> Inr (PStr [c]))"
| "getitem0 (PDict d) =
     (case dict_lookup d (PInt 0) of None \<Rightarrow> Inl KeyError | Some v \<Rightarrow> Inr v)"
| "getitem0 obj = Inl TypeError"

text \<open>\<^verbatim>\<open>for p in obj\<close>: the elements of a list, the keys of a dictionary, the characters of a
  string.\<close>

fun py_iter :: "pyval \<Rightarrow> py_error + pyval list" where
  "py_iter (PList xs) = Inr xs"
| "py_iter (PDict d) = Inr (map fst d)"
| "py_iter (PStr s) = Inr (map (\<lambda>c. PStr [c]) s)"
| "py_iter obj = Inl TypeError"

fun substring :: "string \<Rightarrow> string \<Rightarrow> bool" where
  "substring k [] = (k = [])"
| "substring k (c # cs) = (prefix k (c # cs) \<or> substring k cs)"

text \<open>\<^verbatim>\<open>key in obj\<close> for a string key.\<close>

fun contains :: "pyval \<Rightarrow> string \<Rightarrow> py_error + bool" where
  "contains (PDict d) key = Inr (dict_lookup d (PStr key) \<noteq> None)"
| "contains (PList xs) key = Inr (PStr key \<in> set xs)"
| "contains (PStr s) key = Inr (substring key s)"
| "contains obj key = Inl TypeError"

text \<open>\<^verbatim>\<open>acc.update(new_dict)\<close> and \<^verbatim>\<open>acc += new_list\<close> on the accumulator of a resolver.\<close>

fun dict_update :: "pyval \<Rightarrow> (pyval \<times> pyval) list \<Rightarrow> py_error + pyval" where
  "dict_update (PDict d) new_dict = Inr (PDict (fold (\<lambda>(k, v) acc. dict_set acc k v) new_dict d))"
| "dict_update obj new_dict = Inl AttributeError"

fun list_iadd :: "pyval \<Rightarrow> pyval list \<Rightarrow> py_error + pyval" where
  "list_iadd (PList xs) new_list = Inr (PList (xs @ new_list))"
| "list_iadd obj new_list = Inl TypeError"

subsection \<open>Strings\<close>

text \<open>\<^verbatim>\<open>s.split(sep)\<close> for a separator of one character, and \<^verbatim>\<open>sep.join(xs)\<close>.\<close>

fun split :: "char \<Rightarrow> string \<Rightarrow> string list" where
  "split sep [] = [[]]"
| "split sep (c # cs) =
     (if c = sep then [] # split sep cs
      else (case split sep cs of [] \<Rightarrow> [[c]] | x # xs \<Rightarrow> (c # x) # xs))"

fun join :: "string \<Rightarrow> string list \<Rightarrow> string" where
  "join sep [] = []"
| "join sep [x] = x"
| "join sep (x # y # ys) = x @ sep @ join sep (y # ys)"

text \<open>\<^verbatim>\<open>str(int(i))\<close> for an identifier that is a Python integer: its decimal digits.\<close>

function str_nat :: "nat \<Rightarrow> string" where
  "str_nat n =
     (if n < 10 then [char_of (48 + n)] else str_nat (n div 10) @ [char_of (48 + n mod 10)])"
  by pat_completeness auto
termination
  by (relation "measure id") auto

declare str_nat.simps [simp del]

definition str_int :: "int \<Rightarrow> string" where
  "str_int i = (if i < 0 then CHR ''-'' # str_nat (nat (- i)) else str_nat (nat i))"

subsection \<open>XML trees\<close>

text \<open>
  An element as \<^verbatim>\<open>lxml\<close> holds it: the tag (with its namespace, \<^verbatim>\<open>{ns}name\<close>), the text
  before the first child, the children, and the tail (the text after the element's end
  tag, up to the next sibling).
\<close>

datatype xml = Element (tag: string) (text_of: "string option") (children: "xml list")
  (tail_of: "string option")

fun text_node :: "string option \<Rightarrow> string list" where
  "text_node None = []"
| "text_node (Some s) = (if s = [] then [] else [s])"

fun descendants :: "xml \<Rightarrow> xml list" where
  "descendants (Element t x cs ta) = concat (map (\<lambda>c. c # descendants c) cs)"

text \<open>\<^verbatim>\<open>root.findall(".//" + name)\<close>: the descendants with that tag, in document order.\<close>

definition findall :: "xml \<Rightarrow> string \<Rightarrow> xml list" where
  "findall tree name = filter (\<lambda>e. tag e = name) (descendants tree)"

text \<open>\<^verbatim>\<open>e.xpath('.//text()')\<close> and \<^verbatim>\<open>e.xpath('./text()')\<close>: the text nodes below the
  element, and those that are its children, in document order.\<close>

fun xpath_all_text :: "xml \<Rightarrow> string list" where
  "xpath_all_text (Element t x cs ta) =
     text_node x @ concat (map (\<lambda>c. xpath_all_text c @ text_node (tail_of c)) cs)"

fun xpath_text :: "xml \<Rightarrow> string list" where
  "xpath_text (Element t x cs ta) = text_node x @ concat (map (\<lambda>c. text_node (tail_of c)) cs)"

definition first :: "'a list \<Rightarrow> py_error + 'a" where
  "first xs = (case xs of [] \<Rightarrow> Inl IndexError | x # _ \<Rightarrow> Inr x)"

subsection \<open>The environment: network and parsers\<close>

record response =
  status_code :: int
  content :: string

text \<open>
  \<open>http env url n\<close> is the response to \<^verbatim>\<open>requests.get(url)\<close> when \<open>n\<close> requests have been
  made before it. The two parsers and the rendering of a value inside an f-string are
  those of the Python libraries, taken as they are. \<open>recursion_room env\<close> is the number
  of nested calls of the fetcher that can still make their request before the
  interpreter's recursion limit (\<^verbatim>\<open>sys.getrecursionlimit()\<close>, 1000 unless changed) is
  reached, counted from the place where a resolver calls the fetcher.
\<close>

record env =
  http :: "string \<Rightarrow> nat \<Rightarrow> response"
  recursion_room :: nat
  json_loads :: "string \<Rightarrow> py_error + pyval"
  fromstring :: "string \<Rightarrow> py_error + xml"
  format :: "pyval \<Rightarrow> string"

text \<open>The requests made so far, and the milliseconds spent in \<^verbatim>\<open>time.sleep\<close>.\<close>

record world =
  requests :: nat
  slept :: nat

subsection \<open>The fetcher\<close>

text \<open>
  \<^verbatim>\<open>__safe_urlopen__\<close> retries after a 429 or a 503 by calling itself, with no count of
  the attempts of its own: each retry is one more nested call, and the call for which the
  stack has no room left raises \<^verbatim>\<open>RecursionError\<close>. The first argument is the number of
  nested calls that still fit. A result \<open>Inr None\<close> is the Python value \<^verbatim>\<open>None\<close>: the 404
  branch returns it, and so does the end of the function body for any status that no
  branch names.
\<close>

fun safe_urlopen ::
  "nat \<Rightarrow> env \<Rightarrow> string \<Rightarrow> world \<Rightarrow> (py_error + string option) \<times> world" where
  "safe_urlopen 0 env url w = (Inl RecursionError, w)"
| "safe_urlopen (Suc room) env url w =
     (let response = http env url (requests w);
          w1 = w\<lparr>requests := requests w + 1\<rparr>
      in if status_code response = 200 then (Inr (Some (content response)), w1)
         else if status_code response = 429 then
           safe_urlopen room env url (w1\<lparr>slept := slept w1 + 500\<rparr>)
         else if status_code response = 503 then
           safe_urlopen room env url (w1\<lparr>slept := slept w1 + 1000\<rparr>)
         else if status_code response = 404 then (Inr None, w1)
         else (Inr None, w1))"

subsection \<open>The batcher\<close>

text \<open>
  \<^verbatim>\<open>np.array_split(ary, Nsections)\<close> on a one-dimensional array: it refuses a number of
  sections that is not positive, gives the first \<open>Ntotal mod Nsections\<close> sections one
  element more than the others, and cuts the array at the running sums of the sizes.
\<close>

fun cumsum_from :: "nat \<Rightarrow> nat list \<Rightarrow> nat list" where
  "cumsum_from a [] = []"
| "cumsum_from a (x # xs) = (a + x) # cumsum_from (a + x) xs"

definition cumsum :: "nat list \<Rightarrow> nat list" where
  "cumsum xs = cumsum_from 0 xs"

definition slice :: "'a list \<Rightarrow> nat \<Rightarrow> nat \<Rightarrow> 'a list" where
  "slice xs st stop = drop st (take stop xs)"

definition array_split :: "'a list \<Rightarrow> nat \<Rightarrow> py_error + 'a list list" where
  "array_split ary Nsections =
     (if Nsections \<le> 0 then Inl ValueError
      else
        let Ntotal = length ary;
            Neach_section = Ntotal div Nsections;
            extras = Ntotal mod Nsections;
            section_sizes = [0] @ replicate extras (Neach_section + 1)
                                @ replicate (Nsections - extras) Neach_section;
            div_points = cumsum section_sizes
        in Inr (map (\<lambda>i. slice ary (div_points ! i) (div_points ! (i + 1))) [0..<Nsections]))"

text \<open>\<^verbatim>\<open>int(math.ceil(len(ids) / 100))\<close>, the division taken as exact.\<close>

definition num_divisions :: "'a list \<Rightarrow> nat" where
  "num_divisions ids = nat \<lceil>real (length ids) / 100\<rceil>"

definition divide_list :: "'a list \<Rightarrow> py_error + 'a list list" where
  "divide_list ids = array_split ids (num_divisions ids)"

subsection \<open>The property resolvers\<close>

text \<open>\<^verbatim>\<open>json.loads(r)['PropertyTable']['Properties']\<close>, iterated by a comprehension. A fetch
  that returned \<^verbatim>\<open>None\<close> makes \<^verbatim>\<open>json.loads\<close> raise a \<^verbatim>\<open>TypeError\<close>.\<close>

definition properties :: "env \<Rightarrow> string option \<Rightarrow> py_error + pyval list" where
  "properties env r =
     (case r of
        None \<Rightarrow> Inl TypeError
      | Some body \<Rightarrow>
          bindE (json_loads env body) (\<lambda>j.
          bindE (getitem j ''PropertyTable'') (\<lambda>t.
          bindE (getitem t ''Properties'') py_iter)))"

text \<open>A dictionary comprehension \<^verbatim>\<open>{key(p) : val(p) for p in ps}\<close>.\<close>

definition dict_comp ::
  "('a \<Rightarrow> py_error + pyval) \<Rightarrow> ('a \<Rightarrow> py_error + pyval) \<Rightarrow> 'a list
    \<Rightarrow> py_error + (pyval \<times> pyval) list" where
  "dict_comp key val ps =
     foldE (\<lambda>d p. bindE (key p) (\<lambda>k. bindE (val p) (\<lambda>v. setitem d k v))) [] ps"

definition safe_object_access :: "pyval \<Rightarrow> string \<Rightarrow> py_error + pyval" where
  "safe_object_access obj key =
     bindE (contains obj key) (\<lambda>found. if found then getitem obj key else Inr PNaN)"

definition property_url :: "string list \<Rightarrow> string \<Rightarrow> string" where
  "property_url ids query_type =
     ''https://pubchem.ncbi.nlm.nih.gov/rest/pug/compound/cid/'' @ join '','' ids
       @ ''/property/'' @ query_type @ ''/JSON''"

text \<open>The body of the loop of \<^verbatim>\<open>cids2inchis\<close> after the fetch, and the loop.\<close>

definition inchis_batch ::
  "env \<Rightarrow> bool \<Rightarrow> string \<Rightarrow> string option \<Rightarrow> pyval \<Rightarrow> py_error + pyval" where
  "inchis_batch env as_dict query_type r inchikeys =
     (if as_dict then
        bindE (properties env r) (\<lambda>ps.
        bindE (dict_comp (\<lambda>p. getitem p ''CID'') (\<lambda>p. getitem p query_type) ps) (\<lambda>new_dict.
        dict_update inchikeys new_dict))
      else
        bindE (properties env r) (\<lambda>ps.
        bindE (mapE (\<lambda>p. getitem p query_type) ps) (\<lambda>new_list.
        list_iadd inchikeys new_list)))"

fun inchis_loop ::
  "env \<Rightarrow> bool \<Rightarrow> bool \<Rightarrow> string list list \<Rightarrow> pyval \<Rightarrow> world
    \<Rightarrow> (py_error + pyval) \<times> world" where
  "inchis_loop env as_dict keys [] inchikeys w = (Inr inchikeys, w)"
| "inchis_loop env as_dict keys (ids # rest) inchikeys w =
     (let query_type = (if keys then ''InChIKey'' else ''InChI'');
          url = property_url ids query_type
      in case safe_urlopen (recursion_room env) env url w of
           (Inl e, w') \<Rightarrow> (Inl e, w')
         | (Inr r, w') \<Rightarrow>
             (case inchis_batch env as_dict query_type r inchikeys of
                Inl e \<Rightarrow> (Inl e, w')
              | Inr inchikeys' \<Rightarrow> inchis_loop env as_dict keys rest inchikeys' w'))"

text \<open>\<^verbatim>\<open>ikey.split('-')[0]\<close>; only a string has the method \<^verbatim>\<open>split\<close>.\<close>

definition split_first :: "pyval \<Rightarrow> py_error + pyval" where
  "split_first ikey =
     (case ikey of
        PStr s \<Rightarrow> bindE (first (split CHR ''-'' s)) (\<lambda>x. Inr (PStr x))
      | _ \<Rightarrow> Inl AttributeError)"

text \<open>The two comprehensions under \<^verbatim>\<open>if use_prefix\<close>.\<close>

definition use_prefix_step :: "pyval \<Rightarrow> py_error + pyval" where
  "use_prefix_step inchikeys =
     (case inchikeys of
        PDict d \<Rightarrow>
          bindE (dict_comp (\<lambda>(cid, ikey). Inr cid) (\<lambda>(cid, ikey). split_first ikey) d)
            (\<lambda>d'. Inr (PDict d'))
      | _ \<Rightarrow>
          bindE (py_iter inchikeys) (\<lambda>xs.
          bindE (mapE split_first xs) (\<lambda>ys. Inr (PList ys))))"

text \<open>The identifiers are Python integers, so that \<^verbatim>\<open>int(i)\<close> returns them as they are.\<close>

definition cids2inchis ::
  "env \<Rightarrow> int list \<Rightarrow> bool \<Rightarrow> bool \<Rightarrow> bool \<Rightarrow> world \<Rightarrow> (py_error + pyval) \<times> world" where
  "cids2inchis env cids as_dict use_prefix keys w =
     (case divide_list (map str_int cids) of
        Inl e \<Rightarrow> (Inl e, w)
      | Inr batches \<Rightarrow>
          (case inchis_loop env as_dict keys batches (if as_dict then PDict [] else PList []) w of
             (Inl e, w') \<Rightarrow> (Inl e, w')
           | (Inr inchikeys, w') \<Rightarrow>
               if use_prefix then (use_prefix_step inchikeys, w')
               else (Inr inchikeys, w')))"

definition upacs_batch :: "env \<Rightarrow> bool \<Rightarrow> string option \<Rightarrow> pyval \<Rightarrow> py_error + pyval" where
  "upacs_batch env as_dict r upacs =
     (if as_dict then
        bindE (properties env r) (\<lambda>ps.
        bindE (dict_comp (\<lambda>p. getitem p ''CID'') (\<lambda>p. safe_object_access p ''IUPACName'') ps)
          (\<lambda>new_dict.
        dict_update upacs new_dict))
      else
        bindE (properties env r) (\<lambda>ps.
        bindE (mapE (\<lambda>p. safe_object_access p ''IUPACName'') ps) (\<lambda>new_list.
        list_iadd upacs new_list)))"

fun upacs_loop ::
  "env \<Rightarrow> bool \<Rightarrow> string list list \<Rightarrow> pyval \<Rightarrow> world \<Rightarrow> (py_error + pyval) \<times> world" where
  "upacs_loop env as_dict [] upacs w = (Inr upacs, w)"
| "upacs_loop env as_dict (ids # rest) upacs w =
     (let url = property_url ids ''IUPACName''
      in case safe_urlopen (recursion_room env) env url w of
           (Inl e, w') \<Rightarrow> (Inl e, w')
         | (Inr r, w') \<Rightarrow>
             (case upacs_batch env as_dict r upacs of
                Inl e \<Rightarrow> (Inl e, w')
              | Inr upacs' \<Rightarrow> upacs_loop env as_dict rest upacs' w'))"

definition cids2upacs ::
  "env \<Rightarrow> int list \<Rightarrow> bool \<Rightarrow> world \<Rightarrow> (py_error + pyval) \<times> world" where
  "cids2upacs env cids as_dict w =
     (case divide_list (map str_int cids) of
        Inl e \<Rightarrow> (Inl e, w)
      | Inr batches \<Rightarrow> upacs_loop env as_dict batches (if as_dict then PDict [] else PList []) w)"

subsection \<open>cid2smile\<close>

definition smiles_url :: "string \<Rightarrow> string" where
  "smiles_url cid =
     ''https://pubchem.ncbi.nlm.nih.gov/rest/pug/compound/cid/'' @ cid
       @ ''/property/CanonicalSMILES/XML''"

definition cid2smile :: "env \<Rightarrow> string \<Rightarrow> world \<Rightarrow> (py_error + pyval) \<times> world" where
  "cid2smile env cid w =
     (case safe_urlopen (recursion_room env) env (smiles_url cid) w of
        (Inl e, w') \<Rightarrow> (Inl e, w')
      | (Inr xml, w') \<Rightarrow>
          (case xml of
             None \<Rightarrow> (Inr PNaN, w')
           | Some body \<Rightarrow>
               (bindE (fromstring env body) (\<lambda>tree.
                bindE (first (findall tree
                         ''{http://pubchem.ncbi.nlm.nih.gov/pug_rest}CanonicalSMILES''))
                  (\<lambda>e.
                bindE (first (xpath_all_text e)) (\<lambda>SMILE. Inr (PStr SMILE)))), w')))"

subsection \<open>mesh2pid\<close>

definition esearch_url :: "string \<Rightarrow> string" where
  "esearch_url mesh =
     ''https://eutils.ncbi.nlm.nih.gov/entrez/eutils/esearch.fcgi?db=pcsubstance&term='' @ mesh
       @ ''&retmode=json''"

definition substance_url :: "env \<Rightarrow> pyval \<Rightarrow> string" where
  "substance_url env sid =
     ''https://pubchem.ncbi.nlm.nih.gov/rest/pug/substance/sid/'' @ format env sid @ ''/xml''"

text \<open>\<^verbatim>\<open>{mesh : {'mesh' : mesh, 'sid' : sid, 'cid' : cid}}\<close>\<close>

definition mesh_record :: "string \<Rightarrow> pyval \<Rightarrow> pyval \<Rightarrow> pyval" where
  "mesh_record mesh sid cid =
     PDict [(PStr mesh,
             PDict [(PStr ''mesh'', PStr mesh), (PStr ''sid'', sid), (PStr ''cid'', cid)])]"

text \<open>
  In the branch \<^verbatim>\<open>if xml is None\<close> the returned dictionary reads the local variable \<^verbatim>\<open>cid\<close>,
  which is assigned only further down: Python raises \<^verbatim>\<open>UnboundLocalError\<close> there.
\<close>

definition mesh2pid :: "env \<Rightarrow> string \<Rightarrow> world \<Rightarrow> (py_error + pyval) \<times> world" where
  "mesh2pid env mesh w =
     (case safe_urlopen (recursion_room env) env (esearch_url mesh) w of
        (Inl e, w1) \<Rightarrow> (Inl e, w1)
      | (Inr r, w1) \<Rightarrow>
          (case r of
             Some body \<Rightarrow>
               (case json_loads env body of
                  Inl e \<Rightarrow> (Inl e, w1)
                | Inr j \<Rightarrow>
                    (case bindE (getitem j ''esearchresult'') (\<lambda>res. getitem res ''count'') of
                       Inl e \<Rightarrow> (Inl e, w1)
                     | Inr count \<Rightarrow>
                         if \<not> py_eq count (PInt 0) then
                           (case bindE (getitem j ''esearchresult'') (\<lambda>res.
                                 bindE (getitem res ''idlist'') getitem0) of
                              Inl e \<Rightarrow> (Inl e, w1)
                            | Inr sid \<Rightarrow>
                                (case safe_urlopen (recursion_room env) env
                                        (substance_url env sid) w1 of
                                   (Inl e, w2) \<Rightarrow> (Inl e, w2)
                                 | (Inr xml, w2) \<Rightarrow>
                                     (case xml of
                                        None \<Rightarrow> (Inl UnboundLocalError, w2)
                                      | Some xbody \<Rightarrow>
                                          (case fromstring env xbody of
                                             Inl e \<Rightarrow> (Inl e, w2)
                                           | Inr tree \<Rightarrow>
                                               (let cids = findall tree
                                                  ''{http://www.ncbi.nlm.nih.gov}PC-CompoundType_id_cid''
                                                in if length cids > 0 then
                                                     (case bindE (first cids) (\<lambda>e.
                                                           first (xpath_text e)) of
                                                        Inl e \<Rightarrow> (Inl e, w2)
                                                      | Inr cid \<Rightarrow>
                                                          (Inr (mesh_record mesh sid
                                                                  (PStr cid)), w2))
                                                   else (Inr (mesh_record mesh sid PNaN),
                                                         w2))))))
                         else (Inr (mesh_record mesh PNaN PNaN), w1)))
           | None \<Rightarrow> (Inr (mesh_record mesh PNaN PNaN), w1)))"

subsection \<open>Notions used in the statements\<close>



text \<open>The sizes of the sections that \<^verbatim>\<open>array_split\<close> cuts \<open>n\<close> elements into.\<close>

definition section_sizes :: "nat \<Rightarrow> nat \<Rightarrow> nat list" where
  "section_sizes n k = replicate (n mod k) (n div k + 1) @ replicate (k - n mod k) (n div k)"

text \<open>The tag that \<^verbatim>\<open>cid2smile\<close> looks for.\<close>

definition smiles_tag :: string where
  "smiles_tag = ''{http://pubchem.ncbi.nlm.nih.gov/pug_rest}CanonicalSMILES''"

text \<open>The part of an InChIKey before its first hyphen, the values of a result (a dictionary
  or a list), and the dictionaries that Python can build: every key hashable, no two keys
  equal.\<close>

definition before_hyphen :: "string \<Rightarrow> string" where
  "before_hyphen s = takeWhile (\<lambda>c. c \<noteq> CHR ''-'') s"

fun truncated :: "pyval \<Rightarrow> pyval" where
  "truncated (PStr s) = PStr (before_hyphen s)"
| "truncated v = v"

fun is_str :: "pyval \<Rightarrow> bool" where
  "is_str (PStr s) = True"
| "is_str v = False"

fun values_of :: "pyval \<Rightarrow> pyval list" where
  "values_of (PDict d) = map snd d"
| "values_of (PList xs) = xs"
| "values_of v = []"

fun map_values :: "(pyval \<Rightarrow> pyval) \<Rightarrow> pyval \<Rightarrow> pyval" where
  "map_values f (PDict d) = PDict (map (\<lambda>(k, v). (k, f v)) d)"
| "map_values f (PList xs) = PList (map f xs)"
| "map_values f v = v"

fun keys_distinct :: "pyval list \<Rightarrow> bool" where
  "keys_distinct [] = True"
| "keys_distinct (k # ks) = ((\<forall>k' \<in> set ks. \<not> py_eq k k') \<and> keys_distinct ks)"

definition dict_wf :: "(pyval \<times> pyval) list \<Rightarrow> bool" where
  "dict_wf d = ((\<forall>k \<in> set (map fst d). hashable k) \<and> keys_distinct (map fst d))"

definition result_wf :: "bool \<Rightarrow> pyval \<Rightarrow> bool" where
  "result_wf as_dict v =
     (if as_dict then (\<exists>d. v = PDict d \<and> dict_wf d) else (\<exists>xs. v = PList xs))"


text \<open>
  The objects of a property table: a JSON object, one that has a \<^verbatim>\<open>CID\<close> which can be the
  key of a dictionary, its \<^verbatim>\<open>CID\<close>, and its IUPAC name, which is \<^verbatim>\<open>np.nan\<close> when the object
  has no field \<^verbatim>\<open>IUPACName\<close>. \<open>record_upacs ps upacs\<close> is the accumulator \<open>upacs\<close> after the
  names of the objects \<open>ps\<close> have been recorded in it: appended in order to a list, and
  assigned under the \<^verbatim>\<open>CID\<close> of their object in a dictionary.
\<close>

fun is_object :: "pyval \<Rightarrow> bool" where
  "is_object (PDict d) = True"
| "is_object v = False"

fun has_cid :: "pyval \<Rightarrow> bool" where
  "has_cid (PDict d) = (case dict_lookup d (PStr ''CID'') of None \<Rightarrow> False | Some k \<Rightarrow> hashable k)"
| "has_cid v = False"

fun cid_of :: "pyval \<Rightarrow> pyval" where
  "cid_of (PDict d) = (case dict_lookup d (PStr ''CID'') of None \<Rightarrow> PNone | Some k \<Rightarrow> k)"
| "cid_of v = PNone"

fun upac_of :: "pyval \<Rightarrow> pyval" where
  "upac_of (PDict d) = (case dict_lookup d (PStr ''IUPACName'') of None \<Rightarrow> PNaN | Some v \<Rightarrow> v)"
| "upac_of v = PNaN"

fun record_upacs :: "pyval list \<Rightarrow> pyval \<Rightarrow> pyval" where
  "record_upacs ps (PDict d) = PDict (fold (\<lambda>p d. dict_set d (cid_of p) (upac_of p)) ps d)"
| "record_upacs ps (PList xs) = PList (xs @ map upac_of ps)"
| "record_upacs ps v = v"

text \<open>A key with a boolean replaced by the integer it equals: two keys are equal in Python
  when these agree.\<close>

fun as_key :: "pyval \<Rightarrow> pyval" where
  "as_key (PBool b) = PInt (if b then 1 else 0)"
| "as_key v = v"

subsection \<open>Concrete environments for the examples\<close>

text \<open>
  Every example leaves the fetcher room for 1000 nested calls, the order of what the
  default recursion limit allows. The first server answers every request with one status
  and one body; the second answers the first \<open>n\<close> requests with 429 and every later one
  with 200.
\<close>

definition env_of ::
  "(string \<Rightarrow> nat \<Rightarrow> response) \<Rightarrow> (string \<Rightarrow> py_error + pyval) \<Rightarrow> (string \<Rightarrow> py_error + xml) \<Rightarrow> env" where
  "env_of server loads parse =
     \<lparr>http = server, recursion_room = 1000, json_loads = loads, fromstring = parse,
      format = (\<lambda>v. case v of PStr s \<Rightarrow> s | _ \<Rightarrow> [])\<rparr>"

definition always :: "int \<Rightarrow> string \<Rightarrow> string \<Rightarrow> nat \<Rightarrow> response" where
  "always status body url n = \<lparr>status_code = status, content = body\<rparr>"




text \<open>
  An E-utilities search result; a server that has no hit for the search and says so the
  way E-utilities does, with the count as a string; and a server that finds a substance
  but answers 404 for the substance record.
\<close>

definition search_result :: "pyval \<Rightarrow> pyval list \<Rightarrow> pyval" where
  "search_result count idlist =
     PDict [(PStr ''esearchresult'', PDict [(PStr ''count'', count), (PStr ''idlist'', PList idlist)])]"

definition env_no_hits :: env where
  "env_no_hits =
     env_of (always 200 ''search'') (\<lambda>s. Inr (search_result (PStr ''0'') []))
       (\<lambda>s. Inl XMLSyntaxError)"

definition env_substance_missing :: env where
  "env_substance_missing =
     env_of (\<lambda>url n. if n = 0 then \<lparr>status_code = 200, content = ''search''\<rparr>
                       else \<lparr>status_code = 404, content = ''not found''\<rparr>)
       (\<lambda>s. Inr (search_result (PStr ''1'') [PStr ''123''])) (\<lambda>s. Inl XMLSyntaxError)"


text \<open>A PubChem property document, and a server that answers every request with one status
  and one document.\<close>

definition smiles_doc :: "xml list \<Rightarrow> xml" where
  "smiles_doc props =
     Element ''{http://pubchem.ncbi.nlm.nih.gov/pug_rest}PropertyTable'' None
       [Element ''{http://pubchem.ncbi.nlm.nih.gov/pug_rest}Properties'' None
          (Element ''{http://pubchem.ncbi.nlm.nih.gov/pug_rest}CID'' (Some ''2244'') [] None # props)
          None]
       None"

definition env_xml :: "int \<Rightarrow> xml \<Rightarrow> env" where
  "env_xml status doc =
     env_of (always status ''xml'') (\<lambda>s. Inl JSONDecodeError) (\<lambda>s. Inr doc)"

text \<open>A PubChem property table, and a server that answers every request with 200 and a body
  that parses to the given JSON value.\<close>

definition property_table :: "pyval list \<Rightarrow> pyval" where
  "property_table ps = PDict [(PStr ''PropertyTable'', PDict [(PStr ''Properties'', PList ps)])]"

definition env_json :: "pyval \<Rightarrow> env" where
  "env_json j = env_of (always 200 ''json'') (\<lambda>s. Inr j) (\<lambda>s. Inl XMLSyntaxError)"

text \<open>
  The objects of three property tables: an InChIKey, an InChI (which has no hyphen), and
  two objects of which the second has no IUPAC name.
\<close>

definition key_record :: pyval where
  "key_record = PDict [(PStr ''CID'', PInt 2244), (PStr ''InChIKey'', PStr ''ABCDEF-UHFFFAOYSA-N'')]"


definition name_table :: pyval where
  "name_table = property_table
     [PDict [(PStr ''CID'', PInt 2244), (PStr ''IUPACName'', PStr ''2-acetyloxybenzoic acid'')],
      PDict [(PStr ''CID'', PInt 297)]]"

section \<open>Properties\<close>

subsection \<open>The fetcher\<close>

lemma safe_urlopen_200:
  "0 < room \<Longrightarrow> status_code (http env url (requests w)) = 200 \<Longrightarrow>
   safe_urlopen room env url w =
     (Inr (Some (content (http env url (requests w)))), w\<lparr>requests := requests w + 1\<rparr>)"
  by (cases room) (simp_all add: Let_def)

lemma safe_urlopen_404:
  "0 < room \<Longrightarrow> status_code (http env url (requests w)) = 404 \<Longrightarrow>
   safe_urlopen room env url w = (Inr None, w\<lparr>requests := requests w + 1\<rparr>)"
  by (cases room) (simp_all add: Let_def)







subsection \<open>The batcher\<close>

lemma num_divisions_div: "num_divisions ids = (length ids + 99) div 100"
proof -
  have "\<lceil>real (length ids) / 100\<rceil> = \<lceil>of_int (int (length ids)) / of_int 100 :: real\<rceil>" by simp
  also have "\<dots> = - ((- int (length ids)) div 100)"
    by (rule ceiling_divide_eq_div)
  also have "\<dots> = int ((length ids + 99) div 100)" by (simp add: zdiv_int)
  finally show ?thesis by (simp add: num_divisions_def)
qed

lemma cumsum_from_nth:
  "i < length xs \<Longrightarrow> cumsum_from a xs ! i = a + sum_list (take (Suc i) xs)"
proof (induction xs arbitrary: a i)
  case Nil
  then show ?case by simp
next
  case (Cons x xs)
  then show ?case by (cases i) simp_all
qed

lemma cumsum_point: "i \<le> length s \<Longrightarrow> cumsum (0 # s) ! i = sum_list (take i s)"
  by (simp add: cumsum_def cumsum_from_nth [of i "0 # s" 0, simplified])

lemma take_append_slice: "a \<le> b \<Longrightarrow> take a xs @ slice xs a b = take b xs"
proof -
  assume "a \<le> b"
  then have "take a xs = take a (take b xs)" by (simp add: min_def)
  then show ?thesis unfolding slice_def by (metis append_take_drop_id)
qed

lemma sum_take_mono: "i \<le> j \<Longrightarrow> sum_list (take i (s::nat list)) \<le> sum_list (take j s)"
proof -
  assume "i \<le> j"
  then have "take j s = take i s @ take (j - i) (drop i s)"
    by (metis le_add_diff_inverse take_add)
  then show ?thesis by simp
qed

lemma concat_slices:
  "m \<le> length s \<Longrightarrow>
   concat (map (\<lambda>i. slice ary (sum_list (take i s)) (sum_list (take (i + 1) s))) [0..<m])
     = take (sum_list (take m s)) ary"
proof (induction m)
  case 0
  then show ?case by simp
next
  case (Suc m)
  then show ?case
    by (simp add: take_append_slice sum_take_mono del: take_Suc)  
qed

lemma section_sizes_length: "0 < k \<Longrightarrow> length (section_sizes n k) = k"
  by (simp add: section_sizes_def less_imp_le)

lemma section_sizes_sum: "0 < k \<Longrightarrow> sum_list (section_sizes n k) = n"
proof -
  assume k: "0 < k"
  have "n mod k \<le> k" using k by (simp add: less_imp_le)
  then have "(n mod k) * (n div k + 1) + (k - n mod k) * (n div k) = k * (n div k) + n mod k"
    by (simp add: algebra_simps diff_mult_distrib) 
  then show ?thesis by (simp add: section_sizes_def sum_list_replicate)
qed

lemma section_sizes_nth:
  "0 < k \<Longrightarrow> i < k \<Longrightarrow>
   section_sizes n k ! i = (if i < n mod k then n div k + 1 else n div k)"
  by (auto simp: section_sizes_def nth_append)

lemma array_split_eq:
  assumes "0 < k"
  shows "array_split ary k =
    Inr (map (\<lambda>i. slice ary (sum_list (take i (section_sizes (length ary) k)))
                            (sum_list (take (i + 1) (section_sizes (length ary) k)))) [0..<k])"
proof -
  let ?s = "section_sizes (length ary) k"
  have "cumsum (0 # ?s) ! i = sum_list (take i ?s) \<and> cumsum (0 # ?s) ! (i + 1) = sum_list (take (i + 1) ?s)"
    if "i < k" for i
    using that assms by (simp add: cumsum_point section_sizes_length del: take_Suc)
  then show ?thesis
    using assms by (simp add: array_split_def section_sizes_def Let_def del: take_Suc)
qed

lemma slice_length:
  assumes "0 < k" "i < k"
  shows "length (slice ary (sum_list (take i (section_sizes (length ary) k)))
                        (sum_list (take (i + 1) (section_sizes (length ary) k))))
         = section_sizes (length ary) k ! i"
proof -
  let ?s = "section_sizes (length ary) k"
  have i: "i < length ?s" using assms by (simp add: section_sizes_length)
  have "sum_list (take (i + 1) ?s) \<le> sum_list (take (length ?s) ?s)"
    using i by (intro sum_take_mono) simp
  then have le: "sum_list (take (i + 1) ?s) \<le> length ary"
    using assms by (simp add: section_sizes_sum del: take_Suc)
  have "take (i + 1) ?s = take i ?s @ [?s ! i]"
    using i by (simp add: take_Suc_conv_app_nth)
  then have "sum_list (take (i + 1) ?s) = sum_list (take i ?s) + ?s ! i" by simp
  with le show ?thesis by (auto simp: slice_def min_def simp del: take_Suc)
qed

lemma array_split_chunks:
  assumes "0 < k"
  shows "\<exists>chunks. array_split ary k = Inr chunks \<and> length chunks = k \<and> concat chunks = ary \<and>
     (\<forall>i<k. length (chunks ! i) =
        (if i < length ary mod k then length ary div k + 1 else length ary div k))"
proof -
  let ?s = "section_sizes (length ary) k"
  let ?chunks = "map (\<lambda>i. slice ary (sum_list (take i ?s)) (sum_list (take (i + 1) ?s))) [0..<k]"
  have "concat ?chunks = take (sum_list (take k ?s)) ary"
    using assms by (intro concat_slices) (simp add: section_sizes_length)
  then have "concat ?chunks = ary"
    using assms section_sizes_length [of k "length ary"] section_sizes_sum [of k "length ary"]
    by simp
  moreover have "length (?chunks ! i) = (if i < length ary mod k then length ary div k + 1 else length ary div k)"
    if "i < k" for i
    using that assms slice_length [of k i ary] section_sizes_nth [of k i "length ary"]
    by (simp del: take_Suc)
  ultimately show ?thesis
    using array_split_eq [OF assms, of ary] by (intro exI [of _ ?chunks]) simp
qed

lemma chunk_bound:
  assumes "0 < n"
  shows "(if i < n mod ((n + 99) div 100) then n div ((n + 99) div 100) + 1
          else n div ((n + 99) div 100)) \<le> (100::nat)"
proof -
  let ?k = "(n + 99) div 100"
  have k: "0 < ?k" using assms by (simp add: div_greater_zero_iff)
  have "100 * ?k + (n + 99) mod 100 = n + 99" by simp
  moreover have "(n + 99) mod 100 < 100" by simp
  ultimately have nk: "n \<le> 100 * ?k" by linarith
  then have "n div ?k \<le> (100 * ?k) div ?k" by (rule div_le_mono)
  then have q: "n div ?k \<le> 100" using k by simp
  show ?thesis
  proof (cases "i < n mod ?k")
    case False
    then show ?thesis using q by simp
  next
    case True
    then have pos: "0 < n mod ?k" by simp
    have "?k * (n div ?k) + n mod ?k = n" by simp
    then have "?k * (n div ?k) < ?k * 100" using pos nk by linarith
    then have "n div ?k < 100" by simp
    then show ?thesis using True by simp
  qed
qed

lemma num_divisions_pos: "ids \<noteq> [] \<Longrightarrow> 0 < num_divisions ids"
proof -
  assume "ids \<noteq> []"
  then have "0 < length ids" by simp
  then have "0 < (length ids + 99) div 100" by (simp add: div_greater_zero_iff Suc_le_eq)
  then show ?thesis by (simp add: num_divisions_div)
qed

lemma divide_list_nonempty:
  assumes "ids \<noteq> []"
  shows "\<exists>c cs. divide_list ids = Inr (c # cs)"
proof -
  have k: "0 < num_divisions ids" using assms by (rule num_divisions_pos)
  from array_split_chunks [OF k, of ids] obtain chunks
    where "divide_list ids = Inr chunks" "length chunks = num_divisions ids"
    by (auto simp: divide_list_def)
  with k show ?thesis by (cases chunks) auto
qed

lemma divide_list_single: "divide_list [x] = Inr [[x]]"
  by (simp add: divide_list_def num_divisions_div array_split_def cumsum_def slice_def Let_def)


text \<open>
  C2. For a list that is not empty, the batcher returns \<open>\<lceil>n / 100\<rceil>\<close> chunks of at most 100
  elements each, whose lengths differ by at most one, and whose concatenation is the
  input: the chunks are contiguous and keep the order of the elements.
\<close>

theorem divide_list_chunks:
  assumes "ids \<noteq> []"
  shows "\<exists>chunks. divide_list ids = Inr chunks
     \<and> length chunks = nat \<lceil>real (length ids) / 100\<rceil>
     \<and> (\<forall>c \<in> set chunks. length c \<le> 100)
     \<and> concat chunks = ids
     \<and> (\<forall>c \<in> set chunks. \<forall>c' \<in> set chunks. length c \<le> length c' + 1)"
proof -
  let ?n = "length ids"
  let ?k = "num_divisions ids"
  have n: "0 < ?n" using assms by simp
  have kd: "?k = (?n + 99) div 100" by (rule num_divisions_div)
  have k: "0 < ?k" using assms by (rule num_divisions_pos)
  from array_split_chunks [OF k, of ids] obtain chunks
    where c: "divide_list ids = Inr chunks" "length chunks = ?k" "concat chunks = ids"
      and len: "\<And>i. i < ?k \<Longrightarrow> length (chunks ! i) =
          (if i < ?n mod ?k then ?n div ?k + 1 else ?n div ?k)"
    by (auto simp: divide_list_def)
  have size: "length x = ?n div ?k \<or> length x = ?n div ?k + 1" 
    and bound: "length x \<le> 100" if "x \<in> set chunks" for x
  proof -
    from that obtain i where i: "i < ?k" "x = chunks ! i"
      using c(2) by (metis in_set_conv_nth)
    show "length x = ?n div ?k \<or> length x = ?n div ?k + 1"
      using len [OF i(1)] i(2) by (simp split: if_splits)
    have "length x = (if i < ?n mod ?k then ?n div ?k + 1 else ?n div ?k)"
      using len [OF i(1)] i(2) by simp
    also have "\<dots> \<le> 100"
      unfolding kd by (rule chunk_bound [OF n])
    finally show "length x \<le> 100" .
  qed
  have near: "\<forall>x \<in> set chunks. \<forall>y \<in> set chunks. length x \<le> length y + 1"
  proof (intro ballI)
    fix x y
    assume "x \<in> set chunks" and "y \<in> set chunks"
    from size [OF this(1)] size [OF this(2)] show "length x \<le> length y + 1" by linarith
  qed
  show ?thesis
    using c bound near by (intro exI [of _ chunks]) (simp add: num_divisions_def)
qed

theorem divide_list_chunks_witness:
  "\<exists>chunks. divide_list [1, 2, 3 :: nat] = Inr chunks
     \<and> length chunks = nat \<lceil>real (length [1, 2, 3 :: nat]) / 100\<rceil>
     \<and> (\<forall>c \<in> set chunks. length c \<le> 100)
     \<and> concat chunks = [1, 2, 3]
     \<and> (\<forall>c \<in> set chunks. \<forall>c' \<in> set chunks. length c \<le> length c' + 1)"
  using divide_list_chunks [of "[1, 2, 3 :: nat]"] by simp


text \<open>
  C3. For the empty list the number of divisions is 0, which \<^verbatim>\<open>np.array_split\<close> refuses:
  the batcher raises \<^verbatim>\<open>ValueError\<close> and returns no chunk sequence.
\<close>

theorem divide_list_empty_raises: "divide_list ([] :: string list) = Inl ValueError"
  by (simp add: divide_list_def num_divisions_def array_split_def)

subsection \<open>The retry and the recursion limit\<close>


lemma upacs_loop_append:
  "upacs_loop env as_dict (xs @ ys) acc w =
     (case upacs_loop env as_dict xs acc w of
        (Inl e, w') \<Rightarrow> (Inl e, w')
      | (Inr acc', w') \<Rightarrow> upacs_loop env as_dict ys acc' w')"
  by (induction xs arbitrary: acc w) (auto simp: Let_def split: prod.splits sum.splits)




subsection \<open>mesh2pid\<close>

text \<open>
  When the fetch of the search returns \<^verbatim>\<open>None\<close>, or the count of the search result equals
  the integer 0, \<^verbatim>\<open>mesh2pid\<close> returns the record with \<^verbatim>\<open>sid\<close> and \<^verbatim>\<open>cid\<close> both \<^verbatim>\<open>np.nan\<close>.
\<close>

lemma mesh2pid_no_search_result:
  assumes "safe_urlopen (recursion_room env) env (esearch_url mesh) w = (Inr r, w')"
    and "r = None \<or> (\<exists>body j res count. r = Some body \<and> json_loads env body = Inr j
           \<and> getitem j ''esearchresult'' = Inr res \<and> getitem res ''count'' = Inr count
           \<and> py_eq count (PInt 0))"
  shows "mesh2pid env mesh w = (Inr (mesh_record mesh PNaN PNaN), w')"
  using assms by (auto simp: mesh2pid_def bindE_def)

text \<open>
  C4. \<^verbatim>\<open>mesh2pid\<close> does not return a mapping on every path: when the search has a hit and
  the fetch of the substance record returns \<^verbatim>\<open>None\<close> (a 404), the function raises
  \<^verbatim>\<open>UnboundLocalError\<close>, because the dictionary it builds there reads \<^verbatim>\<open>cid\<close> before any
  assignment to it.
\<close>

theorem mesh2pid_unbound_cid:
  "mesh2pid env_substance_missing ''aspirin'' \<lparr>requests = 0, slept = 0\<rparr>
     = (Inl UnboundLocalError, \<lparr>requests = 2, slept = 0\<rparr>)"
  by (simp add: mesh2pid_def safe_urlopen_200 safe_urlopen_404 env_substance_missing_def
      env_of_def search_result_def bindE_def)

text \<open>
  C5. A search without a hit does not give the record with both identifiers absent.
  E-utilities sends the count as a string, and the test \<^verbatim>\<open>count != 0\<close> compares it with
  the integer 0: the string \<^verbatim>\<open>"0"\<close> differs from it, the branch for a hit is taken, and
  \<^verbatim>\<open>idlist[0]\<close> on the empty list raises \<^verbatim>\<open>IndexError\<close>.
\<close>

theorem mesh2pid_zero_count_raises:
  "mesh2pid env_no_hits ''nonexistent-term'' \<lparr>requests = 0, slept = 0\<rparr>
     = (Inl IndexError, \<lparr>requests = 1, slept = 0\<rparr>)"
  by (simp add: mesh2pid_def safe_urlopen_200 env_no_hits_def env_of_def always_def
      search_result_def bindE_def)

subsection \<open>cid2smile\<close>

text \<open>
  C7. When the fetch returns \<^verbatim>\<open>None\<close>, \<^verbatim>\<open>cid2smile\<close> returns \<^verbatim>\<open>np.nan\<close> and raises nothing.
  When the fetch returns a body that parses to a tree, the result is the first text node
  of the first \<^verbatim>\<open>CanonicalSMILES\<close> element of the PubChem namespace; when the tree has no
  such element, indexing the empty list of matches raises \<^verbatim>\<open>IndexError\<close>.
\<close>

theorem cid2smile_outcomes:
  assumes "safe_urlopen (recursion_room env) env (smiles_url cid) w = (Inr r, w')"
  shows "(r = None \<longrightarrow> cid2smile env cid w = (Inr PNaN, w'))
    \<and> (\<forall>body tree. r = Some body \<and> fromstring env body = Inr tree \<longrightarrow>
          (findall tree smiles_tag = [] \<longrightarrow> cid2smile env cid w = (Inl IndexError, w'))
        \<and> (\<forall>e es t ts. findall tree smiles_tag = e # es \<and> xpath_all_text e = t # ts \<longrightarrow>
              cid2smile env cid w = (Inr (PStr t), w')))"
  using assms by (auto simp: cid2smile_def bindE_def first_def smiles_tag_def)

theorem cid2smile_outcomes_witness:
  "cid2smile (env_xml 404 (smiles_doc [])) ''2244'' \<lparr>requests = 0, slept = 0\<rparr>
     = (Inr PNaN, \<lparr>requests = 1, slept = 0\<rparr>)
   \<and> cid2smile (env_xml 200 (smiles_doc [])) ''2244'' \<lparr>requests = 0, slept = 0\<rparr>
     = (Inl IndexError, \<lparr>requests = 1, slept = 0\<rparr>)
   \<and> cid2smile (env_xml 200 (smiles_doc [Element smiles_tag (Some ''CC(=O)O'') [] None]))
        ''2244'' \<lparr>requests = 0, slept = 0\<rparr>
     = (Inr (PStr ''CC(=O)O''), \<lparr>requests = 1, slept = 0\<rparr>)"
proof -
  let ?w = "\<lparr>requests = 0, slept = 0\<rparr>" and ?w' = "\<lparr>requests = 1, slept = 0\<rparr>"
  let ?doc = "smiles_doc [Element smiles_tag (Some ''CC(=O)O'') [] None]"
  have a: "safe_urlopen (recursion_room (env_xml 404 (smiles_doc []))) (env_xml 404 (smiles_doc []))
      (smiles_url ''2244'') ?w = (Inr None, ?w')"
    by (simp add: safe_urlopen_404 env_xml_def env_of_def always_def)
  have b: "safe_urlopen (recursion_room (env_xml 200 doc)) (env_xml 200 doc)
      (smiles_url ''2244'') ?w = (Inr (Some ''xml''), ?w')" for doc
    by (simp add: safe_urlopen_200 env_xml_def env_of_def always_def)
  have p: "fromstring (env_xml 200 doc) ''xml'' = Inr doc" for doc
    by (simp add: env_xml_def env_of_def)
  have n: "findall (smiles_doc []) smiles_tag = []"
    by (simp add: findall_def smiles_doc_def smiles_tag_def)
  have y: "findall ?doc smiles_tag = [Element smiles_tag (Some ''CC(=O)O'') [] None]"
    by (simp add: findall_def smiles_doc_def smiles_tag_def)
  have t: "xpath_all_text (Element smiles_tag (Some ''CC(=O)O'') [] None) = [''CC(=O)O'']"
    by simp
  have 1: "cid2smile (env_xml 404 (smiles_doc [])) ''2244'' ?w = (Inr PNaN, ?w')"
    using cid2smile_outcomes [OF a] by simp
  have 2: "cid2smile (env_xml 200 (smiles_doc [])) ''2244'' ?w = (Inl IndexError, ?w')"
    using cid2smile_outcomes [OF b [of "smiles_doc []"]] p [of "smiles_doc []"] n by simp
  have 3: "cid2smile (env_xml 200 ?doc) ''2244'' ?w = (Inr (PStr ''CC(=O)O''), ?w')"
    using cid2smile_outcomes [OF b [of ?doc]] p [of ?doc] y t by simp
  show ?thesis using 1 2 3 by simp
qed

subsection \<open>The property resolvers\<close>

lemma split_hd: "\<exists>xs. split sep s = takeWhile (\<lambda>c. c \<noteq> sep) s # xs"
proof (induction s)
  case Nil
  show ?case by simp
next
  case (Cons c s)
  then obtain xs where "split sep s = takeWhile (\<lambda>c. c \<noteq> sep) s # xs" by blast
  then show ?case by simp
qed

lemma split_first_str: "split_first (PStr s) = Inr (PStr (before_hyphen s))"
proof -
  obtain xs where "split CHR ''-'' s = before_hyphen s # xs"
    using split_hd [of "CHR ''-''" s] by (auto simp: before_hyphen_def)
  then show ?thesis by (simp add: split_first_def first_def bindE_def)
qed

lemma split_first_truncated: "is_str v \<Longrightarrow> split_first v = Inr (truncated v)"
  by (cases v) (simp_all add: split_first_str)

lemma split_first_not_str: "\<not> is_str v \<Longrightarrow> split_first v = Inl AttributeError"
  by (cases v) (simp_all add: split_first_def)

lemma mapE_split_first:
  "mapE split_first xs =
     (if \<forall>v \<in> set xs. is_str v then Inr (map truncated xs) else Inl AttributeError)"
proof (induction xs)
  case Nil
  show ?case by simp
next
  case (Cons a xs)
  show ?case
  proof (cases "is_str a")
    case True
    then show ?thesis by (simp add: Cons.IH split_first_truncated bindE_def)
  next
    case False
    then show ?thesis by (simp add: split_first_not_str bindE_def)
  qed
qed

lemma keys_distinct_append:
  "keys_distinct (ks @ ks') =
     (keys_distinct ks \<and> keys_distinct ks' \<and> (\<forall>a \<in> set ks. \<forall>b \<in> set ks'. \<not> py_eq a b))"
  by (induction ks) auto

lemma dict_set_new:
  "\<forall>k' \<in> set (map fst d). \<not> py_eq k' k \<Longrightarrow> dict_set d k v = d @ [(k, v)]"
  by (induction d) auto

lemma dict_set_old:
  "\<exists>k' \<in> set (map fst d). py_eq k' k \<Longrightarrow> map fst (dict_set d k v) = map fst d"
proof (induction d)
  case Nil
  then show ?case by simp
next
  case (Cons p d)
  obtain k0 v0 where p: "p = (k0, v0)" by (cases p)
  show ?case
  proof (cases "py_eq k0 k")
    case True
    then show ?thesis by (simp add: p)
  next
    case False
    with Cons.prems have "\<exists>k' \<in> set (map fst d). py_eq k' k" by (auto simp: p)
    with Cons.IH False show ?thesis by (simp add: p)
  qed
qed

lemma dict_set_wf:
  assumes "dict_wf d" and "hashable k"
  shows "dict_wf (dict_set d k v)"
proof (cases "\<exists>k' \<in> set (map fst d). py_eq k' k")
  case True
  then have "map fst (dict_set d k v) = map fst d" by (rule dict_set_old)
  with assms(1) show ?thesis unfolding dict_wf_def by simp
next
  case False
  then have "dict_set d k v = d @ [(k, v)]" by (intro dict_set_new) blast
  then have eq: "map fst (dict_set d k v) = map fst d @ [k]" by simp
  show ?thesis
    unfolding dict_wf_def eq
    using assms False by (auto simp: dict_wf_def keys_distinct_append)
qed

lemma setitem_wf: "dict_wf d \<Longrightarrow> setitem d k v = Inr d' \<Longrightarrow> dict_wf d'"
  by (auto simp: setitem_def dict_set_wf split: if_splits)

lemma dict_comp_fold_wf:
  "dict_wf d \<Longrightarrow>
   foldE (\<lambda>d p. bindE (key p) (\<lambda>k. bindE (val p) (\<lambda>v. setitem d k v))) d ps = Inr d' \<Longrightarrow>
   dict_wf d'"
proof (induction ps arbitrary: d)
  case Nil
  then show ?case by simp
next
  case (Cons p ps)
  from Cons.prems(2) obtain k v d1 where
    "setitem d k v = Inr d1"
    "foldE (\<lambda>d p. bindE (key p) (\<lambda>k. bindE (val p) (\<lambda>v. setitem d k v))) d1 ps = Inr d'"
    by (auto simp: bindE_def split: sum.splits)
  with Cons.IH [of d1] Cons.prems(1) show ?case by (blast intro: setitem_wf)
qed

lemma dict_comp_wf: "dict_comp key val ps = Inr d \<Longrightarrow> dict_wf d"
  unfolding dict_comp_def by (rule dict_comp_fold_wf [of "[]"]) (simp_all add: dict_wf_def)

lemma fold_dict_set_wf:
  "dict_wf d \<Longrightarrow> \<forall>k \<in> set (map fst new). hashable k \<Longrightarrow>
   dict_wf (fold (\<lambda>(k, v) acc. dict_set acc k v) new d)"
  by (induction new arbitrary: d) (auto simp: dict_set_wf)

lemma dict_update_wf:
  assumes "result_wf True acc" and "dict_wf new" and "dict_update acc new = Inr acc'"
  shows "result_wf True acc'"
proof -
  from assms(1) obtain d where d: "acc = PDict d" "dict_wf d" by (auto simp: result_wf_def)
  have h: "\<forall>k \<in> set (map fst new). hashable k" using assms(2) by (simp add: dict_wf_def)
  have "dict_wf (fold (\<lambda>(k, v) acc. dict_set acc k v) new d)"
    using d(2) h by (rule fold_dict_set_wf)
  moreover have "acc' = PDict (fold (\<lambda>(k, v) acc. dict_set acc k v) new d)"
    using assms(3) by (simp add: d(1))
  ultimately show ?thesis by (simp add: result_wf_def)
qed

lemma list_iadd_wf:
  "result_wf False acc \<Longrightarrow> list_iadd acc new = Inr acc' \<Longrightarrow> result_wf False acc'"
  by (auto simp: result_wf_def)

lemma inchis_batch_wf:
  assumes "result_wf as_dict acc" and "inchis_batch env as_dict q r acc = Inr acc'"
  shows "result_wf as_dict acc'"
proof (cases as_dict)
  case True
  with assms(2) obtain ps new where
    "dict_comp (\<lambda>p. getitem p ''CID'') (\<lambda>p. getitem p q) ps = Inr new"
    "dict_update acc new = Inr acc'"
    by (auto simp: inchis_batch_def bindE_def split: sum.splits)
  then show ?thesis
    using assms(1) True dict_update_wf [of acc new acc'] dict_comp_wf [of _ _ ps new] by simp
next
  case False
  with assms(2) obtain new where "list_iadd acc new = Inr acc'"
    by (auto simp: inchis_batch_def bindE_def split: sum.splits)
  then show ?thesis
    using assms(1) False list_iadd_wf [of acc new acc'] by simp
qed

lemma inchis_loop_wf:
  "result_wf as_dict acc \<Longrightarrow> inchis_loop env as_dict keys batches acc w = (Inr v, w') \<Longrightarrow>
   result_wf as_dict v"
proof (induction batches arbitrary: acc w)
  case Nil
  then show ?case by simp
next
  case (Cons ids rest)
  let ?q = "if keys then ''InChIKey'' else ''InChI''"
  from Cons.prems(2) obtain r w1 acc1 where
    "inchis_batch env as_dict ?q r acc = Inr acc1"
    "inchis_loop env as_dict keys rest acc1 w1 = (Inr v, w')"
    by (auto simp: Let_def split: sum.splits prod.splits)
  with Cons.IH [of acc1 w1] Cons.prems(1) show ?case by (blast intro: inchis_batch_wf)
qed

lemma cids2inchis_wf:
  assumes "cids2inchis env cids as_dict False keys w = (Inr v, w')"
  shows "result_wf as_dict v"
proof -
  from assms obtain batches where
    "inchis_loop env as_dict keys batches (if as_dict then PDict [] else PList []) w = (Inr v, w')"
    by (auto simp: cids2inchis_def split: sum.splits prod.splits)
  moreover have "result_wf as_dict (if as_dict then PDict [] else PList [])"
    by (simp add: result_wf_def dict_wf_def)
  ultimately show ?thesis by (rule inchis_loop_wf [rotated])
qed

lemma rebuild_fold:
  assumes "keys_distinct (map fst (acc @ d))" and "\<forall>k \<in> set (map fst d). hashable k"
  shows "foldE (\<lambda>a p. bindE ((\<lambda>(cid, ikey). Inr cid) p)
            (\<lambda>k. bindE ((\<lambda>(cid, ikey). split_first ikey) p) (\<lambda>v. setitem a k v))) acc d
         = (if \<forall>v \<in> set (map snd d). is_str v
            then Inr (acc @ map (\<lambda>(k, v). (k, truncated v)) d) else Inl AttributeError)"
  using assms
proof (induction d arbitrary: acc)
  case Nil
  then show ?case by simp
next
  case (Cons p d)
  obtain k v where p: "p = (k, v)" by (cases p)
  show ?case
  proof (cases "is_str v")
    case True
    have new: "\<forall>k' \<in> set (map fst acc). \<not> py_eq k' k"
      using Cons.prems(1) by (auto simp: p keys_distinct_append)
    have step: "setitem acc k (truncated v) = Inr (acc @ [(k, truncated v)])"
      using Cons.prems(2) new by (simp add: p setitem_def dict_set_new)
    have sv: "split_first v = Inr (truncated v)"
      using True by (rule split_first_truncated)
    have "keys_distinct (map fst ((acc @ [(k, truncated v)]) @ d))"
      using Cons.prems(1) by (simp add: p)
    from Cons.IH [OF this] Cons.prems(2) True
    show ?thesis by (simp add: p sv step bindE_def)
  next
    case False
    then show ?thesis by (simp add: p split_first_not_str bindE_def)
  qed
qed

lemma use_prefix_step_wf:
  assumes "result_wf as_dict v"
  shows "use_prefix_step v =
    (if \<forall>x \<in> set (values_of v). is_str x then Inr (map_values truncated v)
     else Inl AttributeError)"
proof (cases as_dict)
  case True
  with assms obtain d where d: "v = PDict d" "dict_wf d" by (auto simp: result_wf_def)
  have "dict_comp (\<lambda>(cid, ikey). Inr cid) (\<lambda>(cid, ikey). split_first ikey) d
      = (if \<forall>v \<in> set (map snd d). is_str v
         then Inr (map (\<lambda>(k, v). (k, truncated v)) d) else Inl AttributeError)"
    unfolding dict_comp_def
    using rebuild_fold [of "[]" d] d(2) by (simp add: dict_wf_def)
  then show ?thesis by (simp add: use_prefix_step_def d(1) bindE_def)
next
  case False
  with assms obtain xs where xs: "v = PList xs" by (auto simp: result_wf_def)
  then show ?thesis
    by (simp add: use_prefix_step_def bindE_def mapE_split_first)
qed

lemma cids2inchis_use_prefix:
  "cids2inchis env cids as_dict True keys w =
     (case cids2inchis env cids as_dict False keys w of
        (Inl e, w') \<Rightarrow> (Inl e, w')
      | (Inr v, w') \<Rightarrow>
          (if \<forall>x \<in> set (values_of v). is_str x then Inr (map_values truncated v)
           else Inl AttributeError, w'))"
proof (cases "cids2inchis env cids as_dict False keys w")
  case (Pair res w')
  show ?thesis
  proof (cases res)
    case (Inl e)
    with Pair show ?thesis
      by (auto simp: cids2inchis_def split: sum.splits prod.splits)
  next
    case (Inr v)
    with Pair have r: "cids2inchis env cids as_dict False keys w = (Inr v, w')" by simp
    have "use_prefix_step v =
      (if \<forall>x \<in> set (values_of v). is_str x then Inr (map_values truncated v)
       else Inl AttributeError)"
      using cids2inchis_wf [OF r] by (rule use_prefix_step_wf)
    then show ?thesis
      using r by (auto simp: cids2inchis_def split: sum.splits prod.splits)
  qed
qed





lemma properties_env_json:
  "properties (env_json (property_table ps)) (Some body) = Inr ps"
  by (simp add: properties_def env_json_def env_of_def property_table_def bindE_def)

lemma safe_urlopen_env_json:
  "safe_urlopen (recursion_room (env_json j)) (env_json j) url w
     = (Inr (Some ''json''), w\<lparr>requests := requests w + 1\<rparr>)"
  by (simp add: safe_urlopen_200 env_json_def env_of_def always_def)

lemma cids2inchis_one_batch:
  "cids2inchis (env_json j) [cid] as_dict False keys w
     = (case inchis_batch (env_json j) as_dict (if keys then ''InChIKey'' else ''InChI'')
               (Some ''json'') (if as_dict then PDict [] else PList []) of
          Inl e \<Rightarrow> (Inl e, w\<lparr>requests := requests w + 1\<rparr>)
        | Inr v \<Rightarrow> (Inr v, w\<lparr>requests := requests w + 1\<rparr>))"
  by (simp add: cids2inchis_def divide_list_single safe_urlopen_env_json Let_def
      split: sum.splits)

lemma cids2upacs_one_batch:
  "cids2upacs (env_json j) [cid] as_dict w
     = (case upacs_batch (env_json j) as_dict (Some ''json'')
               (if as_dict then PDict [] else PList []) of
          Inl e \<Rightarrow> (Inl e, w\<lparr>requests := requests w + 1\<rparr>)
        | Inr v \<Rightarrow> (Inr v, w\<lparr>requests := requests w + 1\<rparr>))"
  by (simp add: cids2upacs_def divide_list_single safe_urlopen_env_json Let_def
      split: sum.splits)

lemma py_eq_as_key: "py_eq a b = (as_key a = as_key b)"
  by (cases a; cases b) auto

lemma dict_set_twice:
  "py_eq k' k \<Longrightarrow> dict_set (dict_set d k' v') k v = dict_set d k' v"
  by (induction d) (auto simp: py_eq_as_key)

lemma dict_set_commute:
  "dict_lookup d k \<noteq> None \<Longrightarrow> \<not> py_eq a k \<Longrightarrow>
   dict_set (dict_set d a x) k v = dict_set (dict_set d k v) a x"
  by (induction d) (auto simp: py_eq_as_key)

lemma dict_set_keeps:
  "dict_lookup d k \<noteq> None \<Longrightarrow> dict_lookup (dict_set d a x) k \<noteq> None"
  by (induction d) (auto simp: py_eq_as_key)

lemma dict_set_has: "dict_lookup (dict_set d k v) k \<noteq> None"
  by (induction d) (auto simp: py_eq_as_key)

lemma dict_lookup_cong: "py_eq a b \<Longrightarrow> dict_lookup d a = dict_lookup d b"
  by (induction d) (auto simp: py_eq_as_key)

lemma fold_set_commute:
  "dict_lookup d k \<noteq> None \<Longrightarrow> \<forall>a \<in> set (map fst acc). \<not> py_eq a k \<Longrightarrow>
   dict_set (fold (\<lambda>(k, v) a. dict_set a k v) acc d) k v
     = fold (\<lambda>(k, v) a. dict_set a k v) acc (dict_set d k v)"
proof (induction acc arbitrary: d)
  case Nil
  show ?case by simp
next
  case (Cons p acc)
  obtain a x where p: "p = (a, x)" by (cases p)
  have 1: "dict_lookup (dict_set d a x) k \<noteq> None"
    using Cons.prems(1) by (rule dict_set_keeps)
  have 2: "\<forall>a \<in> set (map fst acc). \<not> py_eq a k" using Cons.prems(2) by simp
  have 3: "\<not> py_eq a k" using Cons.prems(2) by (simp add: p)
  show ?case
    using Cons.IH [OF 1 2] dict_set_commute [OF Cons.prems(1) 3] by (simp add: p)
qed

lemma fold_set_dict_set:
  "keys_distinct (map fst acc) \<Longrightarrow>
   fold (\<lambda>(k, v) a. dict_set a k v) (dict_set acc k v) d
     = dict_set (fold (\<lambda>(k, v) a. dict_set a k v) acc d) k v"
proof (induction acc arbitrary: d)
  case Nil
  show ?case by simp
next
  case (Cons p acc)
  obtain k' v' where p: "p = (k', v')" by (cases p)
  show ?case
  proof (cases "py_eq k' k")
    case True
    have n: "\<forall>a \<in> set (map fst acc). \<not> py_eq a k"
      using Cons.prems True by (auto simp: p py_eq_as_key)
    have "dict_set (fold (\<lambda>(k, v) a. dict_set a k v) acc (dict_set d k' v')) k v
        = fold (\<lambda>(k, v) a. dict_set a k v) acc (dict_set (dict_set d k' v') k v)"
    proof (rule fold_set_commute)
      show "dict_lookup (dict_set d k' v') k \<noteq> None"
        using dict_set_has [of d k' v'] dict_lookup_cong [OF True] by simp
    qed (rule n)
    then show ?thesis using True by (simp add: p dict_set_twice)
  next
    case False
    then show ?thesis using Cons.IH [of "dict_set d k' v'"] Cons.prems by (simp add: p)
  qed
qed

lemma keys_distinct_dict_set:
  "keys_distinct (map fst d) \<Longrightarrow> keys_distinct (map fst (dict_set d k v))"
proof (cases "\<exists>k' \<in> set (map fst d). py_eq k' k")
  case True
  assume "keys_distinct (map fst d)"
  then show ?thesis using dict_set_old [OF True] by simp
next
  case False
  assume d: "keys_distinct (map fst d)"
  from False have "dict_set d k v = d @ [(k, v)]" by (intro dict_set_new) blast
  then show ?thesis using d False by (auto simp: keys_distinct_append)
qed

lemma fold_set_merge:
  "keys_distinct (map fst acc) \<Longrightarrow>
   fold (\<lambda>(k, v) a. dict_set a k v) (fold (\<lambda>(k, v) a. dict_set a k v) xs acc) d
     = fold (\<lambda>(k, v) a. dict_set a k v) xs (fold (\<lambda>(k, v) a. dict_set a k v) acc d)"
proof (induction xs arbitrary: acc)
  case Nil
  show ?case by simp
next
  case (Cons p xs)
  obtain k v where p: "p = (k, v)" by (cases p)
  have "keys_distinct (map fst (dict_set acc k v))"
    using Cons.prems by (rule keys_distinct_dict_set)
  from Cons.IH [OF this] show ?case
    using Cons.prems by (simp add: p fold_set_dict_set)
qed

lemma safe_object_access_upac:
  "is_object p \<Longrightarrow> safe_object_access p ''IUPACName'' = Inr (upac_of p)"
  by (cases p) (auto simp: safe_object_access_def bindE_def split: option.splits)

lemma getitem_cid: "has_cid p \<Longrightarrow> getitem p ''CID'' = Inr (cid_of p) \<and> hashable (cid_of p)"
  by (cases p) (auto split: option.splits)

lemma has_cid_object: "has_cid p \<Longrightarrow> is_object p"
  by (cases p) simp_all

lemma mapE_upacs:
  "\<forall>p \<in> set ps. is_object p \<Longrightarrow>
   mapE (\<lambda>p. safe_object_access p ''IUPACName'') ps = Inr (map upac_of ps)"
  by (induction ps) (simp_all add: safe_object_access_upac bindE_def)

lemma dict_comp_upacs_fold:
  "\<forall>p \<in> set ps. has_cid p \<Longrightarrow>
   foldE (\<lambda>d p. bindE (getitem p ''CID'')
            (\<lambda>k. bindE (safe_object_access p ''IUPACName'') (\<lambda>v. setitem d k v))) acc ps
     = Inr (fold (\<lambda>(k, v) a. dict_set a k v) (map (\<lambda>p. (cid_of p, upac_of p)) ps) acc)"
proof (induction ps arbitrary: acc)
  case Nil
  show ?case by simp
next
  case (Cons p ps)
  have "has_cid p" using Cons.prems by simp
  then have "getitem p ''CID'' = Inr (cid_of p)" "hashable (cid_of p)"
    "safe_object_access p ''IUPACName'' = Inr (upac_of p)"
    by (simp_all add: getitem_cid has_cid_object safe_object_access_upac)
  then show ?case
    using Cons.IH [of "dict_set acc (cid_of p) (upac_of p)"] Cons.prems
    by (simp add: bindE_def setitem_def)
qed

lemma upacs_batch_objects:
  assumes "result_wf as_dict upacs" and "properties env r = Inr ps"
    and "\<forall>p \<in> set ps. is_object p" and "as_dict \<longrightarrow> (\<forall>p \<in> set ps. has_cid p)"
  shows "upacs_batch env as_dict r upacs = Inr (record_upacs ps upacs)"
proof (cases as_dict)
  case True
  with assms(1) obtain d where d: "upacs = PDict d" by (auto simp: result_wf_def)
  let ?new = "map (\<lambda>p. (cid_of p, upac_of p)) ps"
  have c: "dict_comp (\<lambda>p. getitem p ''CID'') (\<lambda>p. safe_object_access p ''IUPACName'') ps
      = Inr (fold (\<lambda>(k, v) a. dict_set a k v) ?new [])"
    unfolding dict_comp_def using assms(4) True by (intro dict_comp_upacs_fold) simp
  have "fold (\<lambda>(k, v) a. dict_set a k v) (fold (\<lambda>(k, v) a. dict_set a k v) ?new []) d
      = fold (\<lambda>(k, v) a. dict_set a k v) ?new d"
    using fold_set_merge [of "[]" ?new d] by simp
  also have "\<dots> = fold (\<lambda>p d. dict_set d (cid_of p) (upac_of p)) ps d"
    by (simp add: fold_map comp_def)
  finally show ?thesis
    using True assms(2) c by (simp add: upacs_batch_def bindE_def d)
next
  case False
  with assms(1) obtain xs where xs: "upacs = PList xs" by (auto simp: result_wf_def)
  show ?thesis
    using False assms(2,3) by (simp add: upacs_batch_def bindE_def xs mapE_upacs)
qed

lemma upacs_batch_wf:
  assumes "result_wf as_dict acc" and "upacs_batch env as_dict r acc = Inr acc'"
  shows "result_wf as_dict acc'"
proof (cases as_dict)
  case True
  with assms(2) obtain ps new where
    "dict_comp (\<lambda>p. getitem p ''CID'') (\<lambda>p. safe_object_access p ''IUPACName'') ps = Inr new"
    "dict_update acc new = Inr acc'"
    by (auto simp: upacs_batch_def bindE_def split: sum.splits)
  then show ?thesis
    using assms(1) True dict_update_wf [of acc new acc'] dict_comp_wf [of _ _ ps new] by simp
next
  case False
  with assms(2) obtain new where "list_iadd acc new = Inr acc'"
    by (auto simp: upacs_batch_def bindE_def split: sum.splits)
  then show ?thesis
    using assms(1) False list_iadd_wf [of acc new acc'] by simp
qed

lemma upacs_loop_wf:
  "result_wf as_dict acc \<Longrightarrow> upacs_loop env as_dict batches acc w = (Inr v, w') \<Longrightarrow>
   result_wf as_dict v"
proof (induction batches arbitrary: acc w)
  case Nil
  then show ?case by simp
next
  case (Cons ids rest)
  from Cons.prems(2) obtain r w1 acc1 where
    "upacs_batch env as_dict r acc = Inr acc1"
    "upacs_loop env as_dict rest acc1 w1 = (Inr v, w')"
    by (auto simp: Let_def split: sum.splits prod.splits)
  with Cons.IH [of acc1 w1] Cons.prems(1) show ?case by (blast intro: upacs_batch_wf)
qed

lemma divide_list_one_batch:
  assumes "ids \<noteq> []" and "length ids \<le> 100"
  shows "divide_list ids = Inr [ids]"
proof -
  obtain x xs where "ids = x # xs" using assms(1) by (cases ids) auto
  then have "100 * 1 \<le> length ids + 99" "length ids + 99 < 100 * Suc 1"
    using assms(2) by simp_all
  then have "(length ids + 99) div 100 = 1" by (rule div_nat_eqI)
  then show ?thesis
    by (simp add: divide_list_def num_divisions_div array_split_def cumsum_def slice_def Let_def)
qed

lemma key_record_list:
  "cids2inchis (env_json (property_table [key_record])) [2244] False False True
      \<lparr>requests = 0, slept = 0\<rparr>
     = (Inr (PList [PStr ''ABCDEF-UHFFFAOYSA-N'']), \<lparr>requests = 1, slept = 0\<rparr>)"
  by (simp add: cids2inchis_one_batch inchis_batch_def properties_env_json key_record_def
      bindE_def)

lemma key_record_dict:
  "cids2inchis (env_json (property_table [key_record])) [2244] True False True
      \<lparr>requests = 0, slept = 0\<rparr>
     = (Inr (PDict [(PInt 2244, PStr ''ABCDEF-UHFFFAOYSA-N'')]), \<lparr>requests = 1, slept = 0\<rparr>)"
  by (simp add: cids2inchis_one_batch inchis_batch_def properties_env_json key_record_def
      bindE_def dict_comp_def setitem_def)



text \<open>
  C8. With \<^verbatim>\<open>use_prefix=True\<close> the resolver \<^verbatim>\<open>cids2inchis\<close> makes the same requests as without
  it and fails where it fails without it. Where it returns a result without it, a
  dictionary or a list, it returns with it the same result with every value truncated to
  the part before its first hyphen, provided every value is a string; a value that is not
  a string has no method \<^verbatim>\<open>split\<close>, and the call raises \<^verbatim>\<open>AttributeError\<close>. In
  particular \<^verbatim>\<open>"ABCDEF-UHFFFAOYSA-N"\<close> becomes \<^verbatim>\<open>"ABCDEF"\<close>.
\<close>

theorem use_prefix_truncates:
  "cids2inchis env cids as_dict True keys w =
     (case cids2inchis env cids as_dict False keys w of
        (Inl e, w') \<Rightarrow> (Inl e, w')
      | (Inr inchikeys, w') \<Rightarrow>
          (if \<forall>ikey \<in> set (values_of inchikeys). is_str ikey
           then Inr (map_values truncated inchikeys) else Inl AttributeError, w'))
   \<and> split_first (PStr ''ABCDEF-UHFFFAOYSA-N'') = Inr (PStr ''ABCDEF'')"
  by (simp add: cids2inchis_use_prefix split_first_str before_hyphen_def)

theorem use_prefix_truncates_witness:
  "cids2inchis (env_json (property_table [key_record])) [2244] False True True
      \<lparr>requests = 0, slept = 0\<rparr>
     = (Inr (PList [PStr ''ABCDEF'']), \<lparr>requests = 1, slept = 0\<rparr>)
   \<and> cids2inchis (env_json (property_table [key_record])) [2244] True True True
      \<lparr>requests = 0, slept = 0\<rparr>
     = (Inr (PDict [(PInt 2244, PStr ''ABCDEF'')]), \<lparr>requests = 1, slept = 0\<rparr>)"
proof -
  let ?env = "env_json (property_table [key_record])" and ?w = "\<lparr>requests = 0, slept = 0\<rparr>"
  have 1: "cids2inchis ?env [2244] False True True ?w
      = (Inr (PList [PStr ''ABCDEF'']), \<lparr>requests = 1, slept = 0\<rparr>)"
    using use_prefix_truncates [of ?env "[2244]" False True ?w]
    by (simp add: key_record_list before_hyphen_def)
  have 2: "cids2inchis ?env [2244] True True True ?w
      = (Inr (PDict [(PInt 2244, PStr ''ABCDEF'')]), \<lparr>requests = 1, slept = 0\<rparr>)"
    using use_prefix_truncates [of ?env "[2244]" True True ?w]
    by (simp add: key_record_dict before_hyphen_def)
  show ?thesis using 1 2 by simp
qed



text \<open>
  \<^verbatim>\<open>cids2inchis\<close> reads the requested field with \<^verbatim>\<open>p[query_type]\<close>, without a guard: an
  object of the response that has no \<^verbatim>\<open>InChIKey\<close> (or no \<^verbatim>\<open>InChI\<close>) makes the resolver raise
  \<^verbatim>\<open>KeyError\<close>, in the list and in the dictionary shape.
\<close>

theorem cids2inchis_missing_field_raises:
  "cids2inchis (env_json (property_table [PDict [(PStr ''CID'', PInt 297)]])) [297] False False True
      \<lparr>requests = 0, slept = 0\<rparr> = (Inl KeyError, \<lparr>requests = 1, slept = 0\<rparr>)
   \<and> cids2inchis (env_json (property_table [PDict [(PStr ''CID'', PInt 297)]])) [297] True False False
      \<lparr>requests = 0, slept = 0\<rparr> = (Inl KeyError, \<lparr>requests = 1, slept = 0\<rparr>)"
  by (simp add: cids2inchis_one_batch inchis_batch_def properties_env_json bindE_def
      dict_comp_def)

text \<open>
  C6. In \<^verbatim>\<open>cids2upacs\<close> an object that has no field \<^verbatim>\<open>IUPACName\<close> does not make the resolver
  fail: its name is \<^verbatim>\<open>np.nan\<close>. When the response to the request of any batch parses to a
  property table of JSON objects (each with a \<^verbatim>\<open>CID\<close> that can be a key, in the dictionary
  shape), the batch succeeds, and the resolver goes on to the remaining batches with the
  names of these objects recorded in its accumulator, \<^verbatim>\<open>np.nan\<close> for every object without
  a name.
\<close>

theorem upacs_missing_name:
  assumes "divide_list (map str_int cids) = Inr (before @ ids # rest)"
    and "upacs_loop env as_dict before (if as_dict then PDict [] else PList []) w0
           = (Inr upacs, w)"
    and "safe_urlopen (recursion_room env) env (property_url ids ''IUPACName'') w = (Inr r, w')"
    and "properties env r = Inr ps"
    and "\<forall>p \<in> set ps. is_object p"
    and "as_dict \<longrightarrow> (\<forall>p \<in> set ps. has_cid p)"
  shows "upacs_batch env as_dict r upacs = Inr (record_upacs ps upacs)
    \<and> cids2upacs env cids as_dict w0 = upacs_loop env as_dict rest (record_upacs ps upacs) w'"
proof -
  have "result_wf as_dict (if as_dict then PDict [] else PList [])"
    by (simp add: result_wf_def dict_wf_def)
  then have "result_wf as_dict upacs" using assms(2) by (rule upacs_loop_wf)
  then have b: "upacs_batch env as_dict r upacs = Inr (record_upacs ps upacs)"
    using assms(4,5,6) by (rule upacs_batch_objects)
  then show ?thesis
    using assms(1,2,3) by (simp add: cids2upacs_def upacs_loop_append Let_def)
qed

theorem upacs_missing_name_witness:
  "cids2upacs (env_json name_table) [2244, 297] False \<lparr>requests = 0, slept = 0\<rparr>
     = (Inr (PList [PStr ''2-acetyloxybenzoic acid'', PNaN]), \<lparr>requests = 1, slept = 0\<rparr>)
   \<and> cids2upacs (env_json name_table) [2244, 297] True \<lparr>requests = 0, slept = 0\<rparr>
     = (Inr (PDict [(PInt 2244, PStr ''2-acetyloxybenzoic acid''), (PInt 297, PNaN)]),
        \<lparr>requests = 1, slept = 0\<rparr>)"
proof -
  let ?w = "\<lparr>requests = 0, slept = 0\<rparr>" and ?w' = "\<lparr>requests = 1, slept = 0\<rparr>"
  let ?ps = "[PDict [(PStr ''CID'', PInt 2244), (PStr ''IUPACName'', PStr ''2-acetyloxybenzoic acid'')],
      PDict [(PStr ''CID'', PInt 297)]]"
  have d: "divide_list (map str_int [2244, 297]) = Inr ([] @ [str_int 2244, str_int 297] # [])"
    by (simp add: divide_list_one_batch)
  have f: "safe_urlopen (recursion_room (env_json name_table)) (env_json name_table)
      (property_url [str_int 2244, str_int 297] ''IUPACName'') ?w = (Inr (Some ''json''), ?w')"
    by (simp add: safe_urlopen_env_json)
  have p: "properties (env_json name_table) (Some ''json'') = Inr ?ps"
    unfolding name_table_def by (rule properties_env_json)
  have 1: "cids2upacs (env_json name_table) [2244, 297] False ?w
      = (Inr (PList [PStr ''2-acetyloxybenzoic acid'', PNaN]), ?w')"
    using upacs_missing_name [OF d _ f p, where as_dict = False and upacs = "PList []" and ?w0.0 = ?w]
    by simp
  have 2: "cids2upacs (env_json name_table) [2244, 297] True ?w
      = (Inr (PDict [(PInt 2244, PStr ''2-acetyloxybenzoic acid''), (PInt 297, PNaN)]), ?w')"
    using upacs_missing_name [OF d _ f p, where as_dict = True and upacs = "PDict []" and ?w0.0 = ?w]
    by simp
  show ?thesis using 1 2 by simp
qed

end
